theory Spec2Isabelle
  imports Complex_Main "HOL-Library.AList" "HOL-Library.Char_ord" "HOL-Library.List_Lexorder"
begin

section \<open>The JSON-file repository layer of ThesisHub (core/repo.py)\<close>

subsection \<open>Decoded JSON values and exceptions\<close>

text \<open>
  A decoded JSON document as Python holds it: \<open>None\<close>, \<open>bool\<close>, \<open>int\<close>, \<open>float\<close>
  (finite floats, as reals), \<open>str\<close>, \<open>list\<close> and \<open>dict\<close>. A dict keeps its insertion order,
  so it is an association list; its keys are pairwise distinct.
\<close>

datatype json =
    JNull
  | JBool bool
  | JInt int
  | JFloat real
  | JStr string
  | JList "json list"
  | JDict "(string \<times> json) list"

text \<open>The exceptions the repository layer raises or lets through.\<close>

datatype exn =
    TimeoutError
  | ValueError string
  | AttributeError
  | OtherError string

subsection \<open>The world: data directory, backup directory, lock markers, clock, process memory\<close>

text \<open>
  A resource path \<open>DATA_DIR / "<stem>.json"\<close> is identified by its stem. A backup slot
  \<open>BACKUP_DIR / "<stem>_<YYYYmmdd-HHMMSS>.json"\<close> is the pair of the stem and the UTC second
  of its timestamp: the timestamp has a fixed width, so slots of one stem sort by name as
  their seconds sort, and the glob \<open>"<stem>_*.json"\<close> selects the slots of that stem (no
  stem of the declared resources is another one followed by an underscore).

  The clock counts milliseconds. The text of a file is kept abstract (type \<open>'t\<close>);
  \<open>json.dumps\<close> and \<open>json.loads\<close> of the standard library are the two fields of a codec.
  The table \<open>_DEFAULTS\<close> lives in the memory of the process: \<open>defaults\<close> holds the
  current value of each of its list objects.
\<close>

type_synonym path = string
type_synonym bname = "string \<times> int"

record 't codec =
  dumps :: "json \<Rightarrow> 't"
  loads :: "'t \<Rightarrow> json option"

record 't world =
  files :: "path \<rightharpoonup> 't"
  baks :: "(bname \<times> 't) list"
  locks :: "path \<rightharpoonup> int"
  now :: int
  audit :: "(string \<times> path) list"
  defaults :: "path \<rightharpoonup> json"

text \<open>
  The three durations of the source (10.0, 0.05 and 60.0 seconds) in milliseconds, and the
  retention count.
\<close>

definition LOCK_TIMEOUT_SEC :: int where "LOCK_TIMEOUT_SEC = 10000"
definition LOCK_SLEEP_SEC :: int where "LOCK_SLEEP_SEC = 50"
definition STALE_LOCK_SEC :: int where "STALE_LOCK_SEC = 60000"
definition BACKUP_RETAIN_PER_FILE :: nat where "BACKUP_RETAIN_PER_FILE = 10"

subsection \<open>Lock helpers\<close>

record lock =
  lpath :: path
  locked :: bool

text \<open>
  \<open>_acquire_lock\<close>: the loop creates the marker when it is absent (its modification time is
  the current time), unlinks a marker older than \<open>STALE_LOCK_SEC\<close> and retries at once,
  raises \<open>TimeoutError\<close> once the elapsed time exceeds the timeout, and sleeps
  \<open>LOCK_SLEEP_SEC\<close> otherwise. One process runs: nobody else creates or removes the marker
  during the loop, so \<open>stat\<close> on an existing marker succeeds, and only the sleep lets
  time pass.
\<close>

function acquire_loop :: "path \<Rightarrow> int \<Rightarrow> int \<Rightarrow> 't world \<Rightarrow> (exn + lock) \<times> 't world" where
  "acquire_loop p timeout start s =
     (case locks s p of
        None \<Rightarrow> (Inr \<lparr>lpath = p, locked = True\<rparr>, s\<lparr>locks := (locks s)(p \<mapsto> now s)\<rparr>)
      | Some mtime \<Rightarrow>
          if now s - mtime > STALE_LOCK_SEC
          then acquire_loop p timeout start (s\<lparr>locks := (locks s)(p := None)\<rparr>)
          else if now s - start > timeout then (Inl TimeoutError, s)
          else acquire_loop p timeout start (s\<lparr>now := now s + LOCK_SLEEP_SEC\<rparr>))"
  by pat_completeness auto
termination
  by (relation "measures
        [\<lambda>(p, timeout, start, s). (case locks s p of None \<Rightarrow> 0 | Some _ \<Rightarrow> 1),
         \<lambda>(p, timeout, start, s). nat (timeout - (now s - start) + LOCK_SLEEP_SEC)]")
     (auto simp: LOCK_SLEEP_SEC_def)

definition acquire_lock :: "path \<Rightarrow> int \<Rightarrow> 't world \<Rightarrow> (exn + lock) \<times> 't world" where
  "acquire_lock p timeout s = acquire_loop p timeout (now s) s"

definition release_lock :: "lock \<Rightarrow> 't world \<Rightarrow> 't world" where
  "release_lock l s =
     (if locked l \<and> locks s (lpath l) \<noteq> None
      then s\<lparr>locks := (locks s)(lpath l := None)\<rparr> else s)"


subsection \<open>Atomic IO and backups\<close>

text \<open>
  \<open>sorted(BACKUP_DIR.glob(f"{path.stem}_*.json"), reverse=True)\<close>: the slots of the stem,
  newest first, each with its text.
\<close>

definition snaps :: "path \<Rightarrow> 't world \<Rightarrow> (bname \<times> 't) list" where
  "snaps p s = rev (sort_key (\<lambda>e. snd (fst e)) (filter (\<lambda>e. fst (fst e) = p) (baks s)))"

text \<open>
  \<open>_rotate_backup\<close>: nothing when the file is absent; otherwise the file is copied to the slot
  of the current second (an existing slot of that name is overwritten), then every slot
  after the first \<open>BACKUP_RETAIN_PER_FILE\<close> of the descending listing is unlinked.
\<close>

definition rotate_backup :: "path \<Rightarrow> 't world \<Rightarrow> 't world" where
  "rotate_backup p s =
     (case files s p of
        None \<Rightarrow> s
      | Some t \<Rightarrow>
          let dst = (p, now s div 1000);
              s1 = s\<lparr>baks := AList.update dst t (baks s)\<rparr>
          in if BACKUP_RETAIN_PER_FILE > 0
             then s1\<lparr>baks := fold (\<lambda>old b. AList.delete old b)
                                (map fst (drop BACKUP_RETAIN_PER_FILE (snaps p s1))) (baks s1)\<rparr>
             else s1)"

text \<open>
  \<open>_atomic_write_text\<close>: the text goes to a temporary file that replaces the target; the
  temporary name is gone after the rename, so the effect is the new text under the path.
\<close>

definition atomic_write_text :: "path \<Rightarrow> 't \<Rightarrow> 't world \<Rightarrow> 't world" where
  "atomic_write_text p t s = s\<lparr>files := (files s)(p \<mapsto> t)\<rparr>"

subsection \<open>JSON read and write\<close>

text \<open>The table \<open>_DEFAULTS\<close> as the module creates it: an empty list for each resource.\<close>

definition DEFAULTS :: "path \<rightharpoonup> json" where
  "DEFAULTS =
     [''students'' \<mapsto> JList [], ''teachers'' \<mapsto> JList [], ''courses'' \<mapsto> JList [],
      ''thesis'' \<mapsto> JList [], ''defended_thesis'' \<mapsto> JList [], ''notifications'' \<mapsto> JList []]"

fun first_parsable :: "'t codec \<Rightarrow> 't list \<Rightarrow> json option" where
  "first_parsable cd [] = None"
| "first_parsable cd (t # ts) =
     (case loads cd t of Some v \<Rightarrow> Some v | None \<Rightarrow> first_parsable cd ts)"

fun is_container :: "json \<Rightarrow> bool" where
  "is_container (JList _) = True"
| "is_container (JDict _) = True"
| "is_container _ = False"

text \<open>
  \<open>read_json\<close> returns the decoded value and whether that value is the list object stored
  in \<open>_DEFAULTS\<close> itself (\<open>_DEFAULTS.get(path, [])\<close> hands out the stored object, not a
  copy). A missing file and a text that does not parse both end in the handler, which
  reports \<open>JSON_READ_FAILED\<close> to the audit sink and tries the slots newest first.
\<close>

definition read_json :: "'t codec \<Rightarrow> path \<Rightarrow> 't world \<Rightarrow> (json \<times> bool) \<times> 't world" where
  "read_json cd p s =
     (case Option.bind (files s p) (loads cd) of
        Some v \<Rightarrow> ((v, False), s)
      | None \<Rightarrow>
          let s' = s\<lparr>audit := audit s @ [(''JSON_READ_FAILED'', p)]\<rparr> in
          (case first_parsable cd (map snd (snaps p s')) of
             Some v \<Rightarrow> ((v, False), s')
           | None \<Rightarrow>
               (case defaults s' p of
                  Some d \<Rightarrow> if is_container d then ((d, True), s') else ((JList [], False), s')
                | None \<Rightarrow> ((JList [], False), s'))))"

definition write_json :: "'t codec \<Rightarrow> path \<Rightarrow> json \<Rightarrow> 't world \<Rightarrow> (exn + unit) \<times> 't world" where
  "write_json cd p data s =
     (case acquire_lock p LOCK_TIMEOUT_SEC s of
        (Inl e, s1) \<Rightarrow> (Inl e, s1)
      | (Inr l, s1) \<Rightarrow>
          (Inr (), release_lock l (atomic_write_text p (dumps cd data) (rotate_backup p s1))))"

subsection \<open>Transactional update\<close>

text \<open>
  A transform is called with the decoded content. It may change that object in place,
  and it either raises or returns \<open>None\<close>, the object it was given, or another object. Its
  model gives the value of the argument object after the call and the outcome.
\<close>

datatype ret = RetNone | RetSame | RetNew json

type_synonym transform = "json \<Rightarrow> json \<times> (exn + ret)"

fun ret_value :: "json \<Rightarrow> ret \<Rightarrow> json option" where
  "ret_value d RetNone = None"
| "ret_value d RetSame = Some d"
| "ret_value d (RetNew v) = Some v"

fun persisted :: "json \<Rightarrow> ret \<Rightarrow> json" where
  "persisted d (RetNew v) = v"
| "persisted d _ = d"

text \<open>
  \<open>update_atomic\<close>: lock, load, transform, rotate, write, release (the release is the
  \<open>finally\<close> block). When the loaded object is the one of \<open>_DEFAULTS\<close>, what the
  transform did to it in place stays in the table.
\<close>

definition update_atomic ::
  "'t codec \<Rightarrow> path \<Rightarrow> transform option \<Rightarrow> 't world \<Rightarrow> (exn + json option) \<times> 't world" where
  "update_atomic cd p fn s =
     (case acquire_lock p LOCK_TIMEOUT_SEC s of
        (Inl e, s1) \<Rightarrow> (Inl e, s1)
      | (Inr l, s1) \<Rightarrow>
          (case read_json cd p s1 of
             ((data, shared), s2) \<Rightarrow>
               (case fn of
                  None \<Rightarrow>
                    (Inr None,
                     release_lock l (atomic_write_text p (dumps cd data) (rotate_backup p s2)))
                | Some f \<Rightarrow>
                    (case f data of
                       (data', r) \<Rightarrow>
                         let s3 = (if shared then s2\<lparr>defaults := (defaults s2)(p \<mapsto> data')\<rparr>
                                   else s2)
                         in (case r of
                               Inl e \<Rightarrow> (Inl e, release_lock l s3)
                             | Inr out \<Rightarrow>
                                 (Inr (ret_value data' out),
                                  release_lock l
                                    (atomic_write_text p (dumps cd (persisted data' out))
                                       (rotate_backup p s3))))))))"

subsection \<open>The values a caller may hand to \<open>json.dumps\<close>\<close>





subsection \<open>A concrete codec and a concrete world\<close>

text \<open>
  For running the model on concrete inputs: a file text is either a well-formed document
  (\<open>Some\<close> of the value it denotes) or garbage (\<open>None\<close>).
\<close>

definition demo_codec :: "json option codec" where
  "demo_codec = \<lparr>dumps = Some, loads = (\<lambda>t. t)\<rparr>"

definition demo_world :: "json option world" where
  "demo_world =
     \<lparr>files = [''thesis'' \<mapsto> Some (JList [])], baks = [], locks = Map.empty, now = 0,
      audit = [], defaults = DEFAULTS\<rparr>"

subsection \<open>Python's view of decoded values\<close>

text \<open>
  \<open>==\<close> on decoded values: numbers compare by value whatever their type (\<open>True == 1\<close>,
  \<open>1 == 1.0\<close>), lists compare element by element, dicts compare as mappings (the order of
  the keys does not count). \<open>norm\<close> maps every value to a representative of its class.
\<close>

fun norm :: "json \<Rightarrow> json" where
  "norm JNull = JNull"
| "norm (JBool b) = JFloat (if b then 1 else 0)"
| "norm (JInt i) = JFloat (of_int i)"
| "norm (JFloat r) = JFloat r"
| "norm (JStr s) = JStr s"
| "norm (JList xs) = JList (map norm xs)"
| "norm (JDict kvs) = JDict (sort_key fst (map (\<lambda>(k, v). (k, norm v)) kvs))"

definition py_eq :: "json \<Rightarrow> json \<Rightarrow> bool" where
  "py_eq a b \<longleftrightarrow> norm a = norm b"

text \<open>Truth value of a decoded value (\<open>not x\<close>, \<open>x or y\<close>).\<close>

fun truthy :: "json \<Rightarrow> bool" where
  "truthy JNull = False"
| "truthy (JBool b) = b"
| "truthy (JInt i) = (i \<noteq> 0)"
| "truthy (JFloat r) = (r \<noteq> 0)"
| "truthy (JStr s) = (s \<noteq> [])"
| "truthy (JList xs) = (xs \<noteq> [])"
| "truthy (JDict kvs) = (kvs \<noteq> [])"

text \<open>\<open>d.get(k)\<close> and \<open>d.get(k, default)\<close> on a dict.\<close>

definition py_get_or :: "(string \<times> json) list \<Rightarrow> string \<Rightarrow> json \<Rightarrow> json" where
  "py_get_or d k dflt = (case map_of d k of None \<Rightarrow> dflt | Some v \<Rightarrow> v)"

definition py_get :: "(string \<times> json) list \<Rightarrow> string \<Rightarrow> json" where
  "py_get d k = py_get_or d k JNull"

subsection \<open>Thesis helpers\<close>

text \<open>
  \<open>_deep_merge\<close>: a copy of the existing dict takes every item of the incoming one in
  turn: a dict that meets a dict is merged recursively, anything else replaces.
\<close>

function deep_merge :: "(string \<times> json) list \<Rightarrow> (string \<times> json) list \<Rightarrow> (string \<times> json) list" where
  "deep_merge out [] = out"
| "deep_merge out ((k, v) # rest) =
     deep_merge
       (AList.update k
          (case v of
             JDict vd \<Rightarrow> (case map_of out k of Some (JDict od) \<Rightarrow> JDict (deep_merge od vd) | _ \<Rightarrow> v)
           | _ \<Rightarrow> v)
          out)
       rest"
  by pat_completeness auto
termination
  by (relation "measure (\<lambda>(out, inc). size_list (size_prod (\<lambda>_. 0) size) inc)") auto


text \<open>
  The test \<open>r.get("student_code") == sc and r.get("course_id") == cid\<close> on a record.
\<close>

definition key_match :: "json \<Rightarrow> json \<Rightarrow> (string \<times> json) list \<Rightarrow> bool" where
  "key_match sc cid e \<longleftrightarrow>
     py_eq (py_get e ''student_code'') sc \<and> py_eq (py_get e ''course_id'') cid"

text \<open>
  The loop of \<open>upsert_thesis\<close>: the first record with the key is replaced by the merge and
  the loop ends (\<open>Some\<close> of the new list); \<open>None\<close> when no record has the key. An element
  without \<open>get\<close> (anything but a dict) raises \<open>AttributeError\<close> when the loop reaches it.
\<close>

fun upsert_loop ::
  "json \<Rightarrow> json \<Rightarrow> (string \<times> json) list \<Rightarrow> json list \<Rightarrow> exn + json list option" where
  "upsert_loop sc cid thesis [] = Inr None"
| "upsert_loop sc cid thesis (th # rest) =
     (case th of
        JDict e \<Rightarrow>
          if key_match sc cid e then Inr (Some (JDict (deep_merge e thesis) # rest))
          else (case upsert_loop sc cid thesis rest of
                  Inl x \<Rightarrow> Inl x
                | Inr None \<Rightarrow> Inr None
                | Inr (Some r) \<Rightarrow> Inr (Some (th # r)))
      | _ \<Rightarrow> Inl AttributeError)"

text \<open>
  The transform of \<open>upsert_thesis\<close>. A list is changed in place and returned; for any
  other content a new list is made and returned.
\<close>

definition upsert_fn :: "(string \<times> json) list \<Rightarrow> transform" where
  "upsert_fn thesis d =
     (let sc = py_get thesis ''student_code''; cid = py_get thesis ''course_id'' in
      case d of
        JList xs \<Rightarrow>
          (case upsert_loop sc cid thesis xs of
             Inl e \<Rightarrow> (d, Inl e)
           | Inr None \<Rightarrow> (JList (xs @ [JDict thesis]), Inr RetSame)
           | Inr (Some xs') \<Rightarrow> (JList xs', Inr RetSame))
      | _ \<Rightarrow> (d, Inr (RetNew (JList [JDict thesis]))))"

definition upsert_thesis :: "'t codec \<Rightarrow> (string \<times> json) list \<Rightarrow> 't world \<Rightarrow> (exn + unit) \<times> 't world" where
  "upsert_thesis cd thesis s =
     (if \<not> truthy (py_get thesis ''student_code'') \<or> \<not> truthy (py_get thesis ''course_id'')
      then (Inl (ValueError ''thesis must include student_code and course_id''), s)
      else (case update_atomic cd ''thesis'' (Some (upsert_fn thesis)) s of
              (Inl e, s') \<Rightarrow> (Inl e, s')
            | (Inr _, s') \<Rightarrow> (Inr (), s'\<lparr>audit := audit s' @ [(''UPSERT_THESIS'', ''thesis'')]\<rparr>)))"

subsection \<open>Defense archive\<close>









subsection \<open>Registration\<close>

definition is_email :: "string \<Rightarrow> bool" where
  "is_email s \<longleftrightarrow> s \<noteq> [] \<and> CHR ''@'' \<in> set s \<and> CHR '' '' \<notin> set s"

fun is_str :: "json \<Rightarrow> bool" where
  "is_str (JStr _) = True"
| "is_str _ = False"

text \<open>
  \<open>validate_student\<close> on a record whose e-mail field, when present, is a string (the
  records \<open>register_student\<close> builds; \<open>_is_email\<close> is written for strings).
\<close>

definition validate_student :: "(string \<times> json) list \<Rightarrow> bool \<times> string" where
  "validate_student rec =
     (let ok = (is_str (py_get_or rec ''name'' (JStr [])) \<and>
                is_str (py_get_or rec ''student_code'' (JStr [])) \<and>
                is_str (py_get_or rec ''password_hash'' (JStr [])));
          email = (case py_get_or rec ''email'' (JStr []) of JStr e \<Rightarrow> e | _ \<Rightarrow> [])
      in if email \<noteq> [] \<and> \<not> is_email email then (False, ''Invalid student email'')
         else (ok, ''OK''))"

text \<open>
  \<open>any(s.get("student_code") == student_code for s in students)\<close>: it stops at the first
  record with the code; an element that is not a dict raises \<open>AttributeError\<close> when reached.
\<close>

fun any_code :: "string \<Rightarrow> json list \<Rightarrow> exn + bool" where
  "any_code c [] = Inr False"
| "any_code c (x # xs) =
     (case x of
        JDict e \<Rightarrow> if py_eq (py_get e ''student_code'') (JStr c) then Inr True else any_code c xs
      | _ \<Rightarrow> Inl AttributeError)"

text \<open>
  The arguments of one call of \<open>register_student\<close>; \<open>r_hash\<close> is what \<open>hash_password\<close>
  returns for the password (a salted bcrypt hash) and \<open>r_now\<close> the string of \<open>_now_iso()\<close>.
\<close>

record registration =
  r_name :: string
  r_student_code :: string
  r_hash :: string
  r_email :: "string option"
  r_now :: string

definition student_rec :: "registration \<Rightarrow> (string \<times> json) list" where
  "student_rec a =
     [(''name'', JStr (r_name a)),
      (''student_code'', JStr (r_student_code a)),
      (''password_hash'', JStr (r_hash a)),
      (''email'', JStr (case r_email a of None \<Rightarrow> [] | Some e \<Rightarrow> e)),
      (''created_at'', JStr (r_now a)),
      (''active'', JBool True)]"

definition register_fn :: "registration \<Rightarrow> transform" where
  "register_fn a d =
     (case any_code (r_student_code a) (case d of JList xs \<Rightarrow> xs | _ \<Rightarrow> []) of
        Inl e \<Rightarrow> (d, Inl e)
      | Inr True \<Rightarrow> (d, Inl (ValueError ''student_code already exists''))
      | Inr False \<Rightarrow>
          (case validate_student (student_rec a) of
             (ok, msg) \<Rightarrow>
               if \<not> ok then (d, Inl (ValueError (''Invalid student record: '' @ msg)))
               else (case d of
                       JList xs \<Rightarrow> (JList (xs @ [JDict (student_rec a)]), Inr RetSame)
                     | _ \<Rightarrow> (d, Inr (RetNew (JList [JDict (student_rec a)]))))))"

text \<open>
  The closing loop of \<open>register_student\<close> over a fresh read: the first record with the code,
  \<open>{}\<close> when there is none. Iterating over a dict or a string yields strings, which have
  no \<open>get\<close>; a number, a boolean and \<open>None\<close> cannot be iterated over.
\<close>

fun find_code :: "string \<Rightarrow> json list \<Rightarrow> exn + json" where
  "find_code c [] = Inr (JDict [])"
| "find_code c (x # xs) =
     (case x of
        JDict e \<Rightarrow> if py_eq (py_get e ''student_code'') (JStr c) then Inr x else find_code c xs
      | _ \<Rightarrow> Inl AttributeError)"

fun find_in :: "string \<Rightarrow> json \<Rightarrow> exn + json" where
  "find_in c (JList xs) = find_code c xs"
| "find_in c (JDict kvs) = (if kvs = [] then Inr (JDict []) else Inl AttributeError)"
| "find_in c (JStr s) = (if s = [] then Inr (JDict []) else Inl AttributeError)"
| "find_in c _ = Inl (OtherError ''TypeError'')"

definition register_student :: "'t codec \<Rightarrow> registration \<Rightarrow> 't world \<Rightarrow> (exn + json) \<times> 't world" where
  "register_student cd a s =
     (case update_atomic cd ''students'' (Some (register_fn a)) s of
        (Inl e, s') \<Rightarrow> (Inl e, s')
      | (Inr _, s') \<Rightarrow>
          (case read_json cd ''students'' (s'\<lparr>audit := audit s' @ [(''REGISTER_STUDENT'', ''students'')]\<rparr>) of
             ((v, _), s'') \<Rightarrow> (find_in (r_student_code a) v, s'')))"

text \<open>
  \<open>s.get("student_code")\<close> of an element of the list, and the e-mail arguments that pass
  \<open>validate_student\<close>: none, the empty string, or a string \<open>_is_email\<close> accepts.
\<close>

definition student_code_of :: "json \<Rightarrow> json" where
  "student_code_of x = (case x of JDict e \<Rightarrow> py_get e ''student_code'' | _ \<Rightarrow> JNull)"

definition email_ok :: "registration \<Rightarrow> bool" where
  "email_ok a \<longleftrightarrow> (case r_email a of None \<Rightarrow> True | Some e \<Rightarrow> e = [] \<or> is_email e)"

definition demo_registration :: registration where
  "demo_registration =
     \<lparr>r_name = ''Sara'', r_student_code = ''s1'', r_hash = ''$2b$12$hash'',
      r_email = Some ''sara@uni.ir'', r_now = ''2024-01-01T00:00:00.000Z''\<rparr>"



subsection \<open>Successive writes\<close>

text \<open>
  A run of locked writes to one resource, each given with the clock time (in milliseconds)
  at which it is made.
\<close>

fun write_seq :: "'t codec \<Rightarrow> path \<Rightarrow> (int \<times> json) list \<Rightarrow> 't world \<Rightarrow> 't world" where
  "write_seq cd p [] s = s"
| "write_seq cd p ((t, d) # ws) s = write_seq cd p ws (snd (write_json cd p d (s\<lparr>now := t\<rparr>)))"

text \<open>Eleven writes one second apart, and eleven writes within one second.\<close>

definition demo_writes :: "(int \<times> json) list" where
  "demo_writes =
     [(1000, JInt 1), (2000, JInt 2), (3000, JInt 3), (4000, JInt 4), (5000, JInt 5),
      (6000, JInt 6), (7000, JInt 7), (8000, JInt 8), (9000, JInt 9), (10000, JInt 10),
      (11000, JInt 11)]"

definition demo_burst :: "(int \<times> json) list" where
  "demo_burst =
     [(10, JInt 1), (20, JInt 2), (30, JInt 3), (40, JInt 4), (50, JInt 5),
      (60, JInt 6), (70, JInt 7), (80, JInt 8), (90, JInt 9), (100, JInt 10),
      (110, JInt 11)]"

text \<open>
  A world in which \<open>thesis.json\<close> holds garbage and no backup slot exists, and a thesis
  request.
\<close>

definition demo_lost :: "json option world" where
  "demo_lost = demo_world\<lparr>files := [''thesis'' \<mapsto> None]\<rparr>"

definition demo_thesis :: "(string \<times> json) list" where
  "demo_thesis = [(''student_code'', JStr ''s1''), (''course_id'', JStr ''c1'')]"

section \<open>Copying the files of a thesis (core/files.py)\<close>

text \<open>
  A path is a directory and a file name; the file system maps the paths that exist to
  their contents. \<open>tmp_name\<close> is \<open>dst.with_name(f".{dst.name}.tmp.{uuid}")\<close>, \<open>sidecar\<close> is
  \<open>p.with_suffix(p.suffix + ".sha256")\<close>.
\<close>

type_synonym fpath = "string \<times> string"
type_synonym fsys = "fpath \<rightharpoonup> string"

definition tmp_name :: "fpath \<Rightarrow> string \<Rightarrow> fpath" where
  "tmp_name p uid = (fst p, ''.'' @ snd p @ ''.tmp.'' @ uid)"

definition sidecar :: "fpath \<Rightarrow> fpath" where
  "sidecar p = (fst p, snd p @ ''.sha256'')"

text \<open>
  What the operating system does to one atomic copy or write: it goes through, it fails
  before the temporary file exists (the source cannot be opened, the temporary file cannot
  be created), or it fails once the temporary file exists (while copying, at \<open>fsync\<close>, at
  \<open>os.replace\<close>), leaving the bytes written so far.
\<close>

datatype fault = NoFault | FailBeforeTmp | FailAfterTmp string

text \<open>
  \<open>_atomic_copy\<close>: nothing in it removes the temporary file when a later step raises.
\<close>

definition atomic_copy :: "string \<Rightarrow> fpath \<Rightarrow> fault \<Rightarrow> string \<Rightarrow> fsys \<Rightarrow> exn option \<times> fsys" where
  "atomic_copy src dst flt uid fs =
     (case flt of
        FailBeforeTmp \<Rightarrow> (Some (OtherError ''OSError''), fs)
      | FailAfterTmp part \<Rightarrow> (Some (OtherError ''OSError''), fs(tmp_name dst uid \<mapsto> part))
      | NoFault \<Rightarrow> (None, (fs(tmp_name dst uid := None))(dst \<mapsto> src)))"

text \<open>\<open>_atomic_write_text\<close> of core/files.py, for the sidecar files.\<close>

definition atomic_write_text_files :: "fpath \<Rightarrow> string \<Rightarrow> fault \<Rightarrow> string \<Rightarrow> fsys \<Rightarrow> exn option \<times> fsys" where
  "atomic_write_text_files p text flt uid fs =
     (case flt of
        FailBeforeTmp \<Rightarrow> (Some (OtherError ''OSError''), fs)
      | FailAfterTmp part \<Rightarrow> (Some (OtherError ''OSError''), fs(tmp_name p uid \<mapsto> part))
      | NoFault \<Rightarrow> (None, (fs(tmp_name p uid := None))(p \<mapsto> text)))"

text \<open>\<open>_write_sidecar_hash\<close> swallows every exception.\<close>

definition write_sidecar_hash :: "fpath \<Rightarrow> string \<Rightarrow> fault \<Rightarrow> string \<Rightarrow> fsys \<Rightarrow> fsys" where
  "write_sidecar_hash p sha256_hex flt uid fs =
     snd (atomic_write_text_files (sidecar p) sha256_hex flt uid fs)"

text \<open>
  One of the three files of a call of \<open>validate_and_copy\<close>, as the first part of the
  function leaves it: the bytes of the validated source, the destination chosen after
  deduplication and versioning, the hash; and what the operating system does to its copy
  and to the write of its sidecar, with the random parts of the two temporary names.
\<close>

record copy_job =
  src_bytes :: string
  dst :: fpath
  sha256_hex :: string
  copy_fault :: fault
  copy_uid :: string
  side_fault :: fault
  side_uid :: string

text \<open>
  One block of the \<open>try\<close>: a destination that exists is left alone; otherwise the file is
  copied, its sidecar written, and the destination appended to \<open>created\<close>.
\<close>

definition copy_one :: "copy_job \<Rightarrow> fpath list \<times> fsys \<Rightarrow> exn option \<times> fpath list \<times> fsys" where
  "copy_one j st =
     (case st of
        (created, fs) \<Rightarrow>
          if fs (dst j) \<noteq> None then (None, created, fs)
          else (case atomic_copy (src_bytes j) (dst j) (copy_fault j) (copy_uid j) fs of
                  (Some e, fs') \<Rightarrow> (Some e, created, fs')
                | (None, fs') \<Rightarrow>
                    (None, created @ [dst j],
                     write_sidecar_hash (dst j) (sha256_hex j) (side_fault j) (side_uid j) fs')))"

text \<open>The handler: every path of \<open>created\<close>, last first, is unlinked with its sidecar.\<close>

definition rollback :: "fpath list \<Rightarrow> fsys \<Rightarrow> fsys" where
  "rollback created fs = fold (\<lambda>p f. (f(p := None))(sidecar p := None)) (rev created) fs"

text \<open>
  The last part of \<open>validate_and_copy\<close> (``copy with rollback on partial failures''), for
  the PDF, the cover and the last page.
\<close>

definition copy_with_rollback ::
  "copy_job \<Rightarrow> copy_job \<Rightarrow> copy_job \<Rightarrow> fsys \<Rightarrow> (exn + unit) \<times> fsys" where
  "copy_with_rollback pdf cov lst fs =
     (case copy_one pdf ([], fs) of
        (Some e, created, fs1) \<Rightarrow> (Inl e, rollback created fs1)
      | (None, c1, fs1) \<Rightarrow>
     (case copy_one cov (c1, fs1) of
        (Some e, created, fs2) \<Rightarrow> (Inl e, rollback created fs2)
      | (None, c2, fs2) \<Rightarrow>
     (case copy_one lst (c2, fs2) of
        (Some e, created, fs3) \<Rightarrow> (Inl e, rollback created fs3)
      | (None, c3, fs3) \<Rightarrow> (Inr (), fs3))))"

text \<open>
  A call for the prefix \<open>s1_c1\<close> into empty directories, in which the copy of the cover
  fails after two bytes have reached its temporary file.
\<close>

definition demo_pdf :: copy_job where
  "demo_pdf =
     \<lparr>src_bytes = ''%PDF-1.4 ... %%EOF'', dst = (''files/thesis'', ''s1_c1.pdf''),
      sha256_hex = ''aa11'', copy_fault = NoFault, copy_uid = ''0001'',
      side_fault = NoFault, side_uid = ''0002''\<rparr>"

definition demo_cover :: copy_job where
  "demo_cover =
     \<lparr>src_bytes = ''JFIF cover'', dst = (''files/images'', ''s1_c1_cover.jpg''),
      sha256_hex = ''bb22'', copy_fault = FailAfterTmp ''JF'', copy_uid = ''0003'',
      side_fault = NoFault, side_uid = ''0004''\<rparr>"

definition demo_last :: copy_job where
  "demo_last =
     \<lparr>src_bytes = ''JFIF last'', dst = (''files/images'', ''s1_c1_last.jpg''),
      sha256_hex = ''cc33'', copy_fault = NoFault, copy_uid = ''0005'',
      side_fault = NoFault, side_uid = ''0006''\<rparr>"

section \<open>Properties\<close>

subsection \<open>Locking\<close>

declare acquire_loop.simps [simp del]

lemma acquire_loop_frame:
  "files (snd (acquire_loop p t st s)) = files s \<and>
   baks (snd (acquire_loop p t st s)) = baks s \<and>
   audit (snd (acquire_loop p t st s)) = audit s \<and>
   defaults (snd (acquire_loop p t st s)) = defaults s"
proof (induction p t st s rule: acquire_loop.induct)
  case (1 p timeout start s)
  show ?case
    by (subst (1 2 3 4) acquire_loop.simps) (use 1 in \<open>auto split: option.splits\<close>)
qed

lemma acquire_loop_result:
  "(fst (acquire_loop p t st s) = Inl TimeoutError \<and> locks (snd (acquire_loop p t st s)) p \<noteq> None) \<or>
   (fst (acquire_loop p t st s) = Inr \<lparr>lpath = p, locked = True\<rparr> \<and>
    locks (snd (acquire_loop p t st s)) p \<noteq> None)"
proof (induction p t st s rule: acquire_loop.induct)
  case (1 p timeout start s)
  show ?case
    by (subst (1 2 3 4) acquire_loop.simps) (use 1 in \<open>auto split: option.splits\<close>)
qed

lemma acquire_loop_free:
  "locks s p = None \<Longrightarrow>
   acquire_loop p t st s = (Inr \<lparr>lpath = p, locked = True\<rparr>, s\<lparr>locks := (locks s)(p \<mapsto> now s)\<rparr>)"
  by (subst acquire_loop.simps) simp

lemma acquire_lock_free:
  "locks s p = None \<Longrightarrow>
   acquire_lock p t s = (Inr \<lparr>lpath = p, locked = True\<rparr>, s\<lparr>locks := (locks s)(p \<mapsto> now s)\<rparr>)"
  by (simp add: acquire_lock_def acquire_loop_free)

text \<open>
  C4. When the marker exists and is older than the staleness threshold, the acquisition
  removes it, creates its own marker and returns the lock; the clock has not moved, so
  nothing of the timeout was waited.
\<close>

theorem acquire_lock_stale:
  assumes "locks s p = Some m" and "now s - m > STALE_LOCK_SEC"
  shows "acquire_lock p timeout s =
           (Inr \<lparr>lpath = p, locked = True\<rparr>, s\<lparr>locks := (locks s)(p \<mapsto> now s)\<rparr>)"
  unfolding acquire_lock_def
  by (subst acquire_loop.simps) (use assms in \<open>simp add: acquire_loop_free\<close>)

theorem acquire_lock_stale_witness:
  "acquire_lock ''thesis'' LOCK_TIMEOUT_SEC (demo_world\<lparr>locks := [''thesis'' \<mapsto> 0], now := 60001\<rparr>) =
     (Inr \<lparr>lpath = ''thesis'', locked = True\<rparr>,
      demo_world\<lparr>locks := [''thesis'' \<mapsto> 60001], now := 60001\<rparr>)"
  using acquire_lock_stale[of "demo_world\<lparr>locks := [''thesis'' \<mapsto> 0], now := 60001\<rparr>"
                              "''thesis''" 0 LOCK_TIMEOUT_SEC]
  by (simp add: STALE_LOCK_SEC_def demo_world_def)

lemma acquire_loop_held:
  assumes "locks s p = Some m"
      and "now s - m \<le> STALE_LOCK_SEC"
      and "st + timeout + LOCK_SLEEP_SEC - m \<le> STALE_LOCK_SEC"
  shows "\<exists>k\<ge>0. acquire_loop p timeout st s = (Inl TimeoutError, s\<lparr>now := now s + k\<rparr>) \<and>
           timeout < now s + k - st \<and> (k = 0 \<or> now s + k - st \<le> timeout + LOCK_SLEEP_SEC)"
  using assms
proof (induction p timeout st s rule: acquire_loop.induct)
  case (1 p timeout start s)
  show ?case
  proof (cases "now s - start > timeout")
    case True
    have "acquire_loop p timeout start s = (Inl TimeoutError, s\<lparr>now := now s + 0\<rparr>)"
      by (subst acquire_loop.simps) (use 1 True in simp)
    with True show ?thesis by (intro exI[of _ 0]) simp
  next
    case False
    let ?s' = "s\<lparr>now := now s + LOCK_SLEEP_SEC\<rparr>"
    have step: "acquire_loop p timeout start s = acquire_loop p timeout start ?s'"
      by (subst acquire_loop.simps) (use 1 False in simp)
    have "now ?s' - m \<le> STALE_LOCK_SEC"
      using False "1.prems" by simp
    with "1.IH"(2)[of m] "1.prems" False
    obtain k where k: "k \<ge> 0"
      "acquire_loop p timeout start ?s' = (Inl TimeoutError, ?s'\<lparr>now := now ?s' + k\<rparr>)"
      "timeout < now ?s' + k - start"
      "k = 0 \<or> now ?s' + k - start \<le> timeout + LOCK_SLEEP_SEC"
      by auto
    show ?thesis
      using k step False
      by (intro exI[of _ "LOCK_SLEEP_SEC + k"]) (auto simp: LOCK_SLEEP_SEC_def algebra_simps)
  qed
qed

lemma acquire_lock_held:
  assumes "locks s p = Some m"
      and "now s - m + max 0 timeout + LOCK_SLEEP_SEC \<le> STALE_LOCK_SEC"
  shows "\<exists>k. timeout < k \<and> k \<le> max 0 (timeout + LOCK_SLEEP_SEC) \<and>
           acquire_lock p timeout s = (Inl TimeoutError, s\<lparr>now := now s + k\<rparr>)"
proof -
  have "now s - m \<le> STALE_LOCK_SEC" "now s + timeout + LOCK_SLEEP_SEC - m \<le> STALE_LOCK_SEC"
    using assms(2) by (auto simp: LOCK_SLEEP_SEC_def)
  from acquire_loop_held[OF assms(1) this]
  obtain k where "k \<ge> 0"
    "acquire_loop p timeout (now s) s = (Inl TimeoutError, s\<lparr>now := now s + k\<rparr>)"
    "timeout < now s + k - now s" "k = 0 \<or> now s + k - now s \<le> timeout + LOCK_SLEEP_SEC"
    by blast
  then show ?thesis
    unfolding acquire_lock_def by (intro exI[of _ k]) auto
qed

text \<open>
  C5. When the marker exists and stays younger than the staleness threshold for the whole
  attempt, the acquisition ends in \<open>TimeoutError\<close> as soon as the elapsed wait exceeds the
  timeout (at most one sleep interval later). With the default timeout, \<open>update_atomic\<close>
  and \<open>write_json\<close> then hand that error on, and nothing but the clock has changed: no
  file, no backup slot, no audit event of a read, no lock marker, no call of the transform.
\<close>

theorem lock_held_times_out:
  assumes "locks s p = Some m"
      and "now s - m + max 0 timeout + LOCK_SLEEP_SEC \<le> STALE_LOCK_SEC"
  shows "\<exists>k. timeout < k \<and> k \<le> max 0 (timeout + LOCK_SLEEP_SEC) \<and>
           acquire_lock p timeout s = (Inl TimeoutError, s\<lparr>now := now s + k\<rparr>) \<and>
           (timeout = LOCK_TIMEOUT_SEC \<longrightarrow>
              update_atomic cd p fn s = (Inl TimeoutError, s\<lparr>now := now s + k\<rparr>) \<and>
              write_json cd p d s = (Inl TimeoutError, s\<lparr>now := now s + k\<rparr>))"
proof -
  from acquire_lock_held[OF assms] obtain k where
    "timeout < k" "k \<le> max 0 (timeout + LOCK_SLEEP_SEC)"
    "acquire_lock p timeout s = (Inl TimeoutError, s\<lparr>now := now s + k\<rparr>)"
    by blast
  then show ?thesis
    by (intro exI[of _ k]) (auto simp: update_atomic_def write_json_def)
qed

theorem lock_held_times_out_witness:
  "\<exists>k. 10000 < k \<and> k \<le> 10050 \<and>
     update_atomic demo_codec ''thesis'' None (demo_world\<lparr>locks := [''thesis'' \<mapsto> 0]\<rparr>) =
       (Inl TimeoutError, demo_world\<lparr>locks := [''thesis'' \<mapsto> 0], now := k\<rparr>)"
  using lock_held_times_out[of "demo_world\<lparr>locks := [''thesis'' \<mapsto> 0]\<rparr>" "''thesis''" 0
          LOCK_TIMEOUT_SEC demo_codec None JNull]
  by (simp add: demo_world_def LOCK_TIMEOUT_SEC_def LOCK_SLEEP_SEC_def STALE_LOCK_SEC_def) blast

subsection \<open>Reading, writing and the transactional update\<close>

lemma acquire_lock_cases:
  obtains (timeout) s1 where "acquire_lock p t s = (Inl TimeoutError, s1)"
  | (ok) s1 where "acquire_lock p t s = (Inr \<lparr>lpath = p, locked = True\<rparr>, s1)"
      "files s1 = files s" "baks s1 = baks s" "audit s1 = audit s" "defaults s1 = defaults s"
      "locks s1 p \<noteq> None"
  using acquire_loop_result[of p t "now s" s] acquire_loop_frame[of p t "now s" s]
  unfolding acquire_lock_def by (cases "acquire_loop p t (now s) s") auto

lemma read_json_frame:
  "files (snd (read_json cd p s)) = files s \<and> baks (snd (read_json cd p s)) = baks s \<and>
   locks (snd (read_json cd p s)) = locks s \<and> defaults (snd (read_json cd p s)) = defaults s \<and>
   now (snd (read_json cd p s)) = now s"
  by (auto simp: read_json_def Let_def split: option.splits)

lemma read_json_cong:
  "files s1 = files s \<Longrightarrow> baks s1 = baks s \<Longrightarrow> defaults s1 = defaults s \<Longrightarrow>
   fst (read_json cd p s1) = fst (read_json cd p s)"
  by (auto simp: read_json_def Let_def snaps_def split: option.splits)

text \<open>
  C1. When the lock is obtained and the transform raises on the content it is given,
  \<open>update_atomic\<close> ends in that same exception, the resource files and the backup slots
  are what they were before the call, and the lock marker of the resource is gone.
\<close>

theorem update_atomic_transform_raises:
  assumes "fst (acquire_lock p LOCK_TIMEOUT_SEC s) \<noteq> Inl TimeoutError"
      and "snd (f (fst (fst (read_json cd p s)))) = Inl e"
  shows "fst (update_atomic cd p (Some f) s) = Inl e \<and>
         files (snd (update_atomic cd p (Some f) s)) = files s \<and>
         baks (snd (update_atomic cd p (Some f) s)) = baks s \<and>
         locks (snd (update_atomic cd p (Some f) s)) p = None"
proof (cases rule: acquire_lock_cases[of p LOCK_TIMEOUT_SEC s])
  case (timeout s1)
  with assms(1) show ?thesis by simp
next
  case (ok s1)
  obtain data shared s2 where r: "read_json cd p s1 = ((data, shared), s2)"
    by (metis prod.collapse)
  have d: "data = fst (fst (read_json cd p s))"
    using read_json_cong[OF ok(2,3,5), of cd p] r by (metis fst_conv)
  have fr: "files s2 = files s" "baks s2 = baks s" "locks s2 = locks s1"
    using read_json_frame[of cd p s1] r ok by simp_all
  obtain data' where f: "f data = (data', Inl e)"
    using assms(2) d by (metis prod.collapse)
  show ?thesis
    using ok(1,6) r f fr by (simp add: update_atomic_def release_lock_def)
qed

theorem update_atomic_transform_raises_witness:
  "fst (update_atomic demo_codec ''thesis''
          (Some (\<lambda>d. (JList [JInt 1], Inl (ValueError ''boom'')))) demo_world) =
     Inl (ValueError ''boom'') \<and>
   files (snd (update_atomic demo_codec ''thesis''
          (Some (\<lambda>d. (JList [JInt 1], Inl (ValueError ''boom'')))) demo_world)) = files demo_world \<and>
   baks (snd (update_atomic demo_codec ''thesis''
          (Some (\<lambda>d. (JList [JInt 1], Inl (ValueError ''boom'')))) demo_world)) = baks demo_world \<and>
   locks (snd (update_atomic demo_codec ''thesis''
          (Some (\<lambda>d. (JList [JInt 1], Inl (ValueError ''boom'')))) demo_world)) ''thesis'' = None"
  using update_atomic_transform_raises[of "''thesis''" demo_world
          "\<lambda>d. (JList [JInt 1], Inl (ValueError ''boom''))" demo_codec "ValueError ''boom''"]
  by (simp add: acquire_lock_free demo_world_def)







lemma rotate_backup_frame:
  "files (rotate_backup p s) = files s \<and> locks (rotate_backup p s) = locks s \<and>
   defaults (rotate_backup p s) = defaults s \<and> now (rotate_backup p s) = now s \<and>
   audit (rotate_backup p s) = audit s"
  by (simp add: rotate_backup_def Let_def split: option.splits)

lemma update_atomic_ok:
  assumes "fst (acquire_lock p LOCK_TIMEOUT_SEC s) \<noteq> Inl TimeoutError"
      and "f (fst (fst (read_json cd p s))) = (d', Inr out)"
  shows "fst (update_atomic cd p (Some f) s) = Inr (ret_value d' out) \<and>
         files (snd (update_atomic cd p (Some f) s)) = (files s)(p \<mapsto> dumps cd (persisted d' out)) \<and>
         locks (snd (update_atomic cd p (Some f) s)) p = None"
proof (cases rule: acquire_lock_cases[of p LOCK_TIMEOUT_SEC s])
  case (timeout s1)
  with assms(1) show ?thesis by simp
next
  case (ok s1)
  obtain data shared s2 where r: "read_json cd p s1 = ((data, shared), s2)"
    by (metis prod.collapse)
  have d: "data = fst (fst (read_json cd p s))"
    using read_json_cong[OF ok(2,3,5), of cd p] r by (metis fst_conv)
  have fr: "files s2 = files s" "locks s2 = locks s1"
    using read_json_frame[of cd p s1] r ok by simp_all
  have f: "f data = (d', Inr out)"
    using assms(2) d by simp
  show ?thesis
    using ok(1,6) r f fr
    by (simp add: update_atomic_def release_lock_def atomic_write_text_def rotate_backup_frame)
qed

lemma update_atomic_raise:
  assumes "fst (acquire_lock p LOCK_TIMEOUT_SEC s) \<noteq> Inl TimeoutError"
      and "f (fst (fst (read_json cd p s))) = (d', Inl e)"
  shows "fst (update_atomic cd p (Some f) s) = Inl e \<and>
         files (snd (update_atomic cd p (Some f) s)) = files s"
proof (cases rule: acquire_lock_cases[of p LOCK_TIMEOUT_SEC s])
  case (timeout s1)
  with assms(1) show ?thesis by simp
next
  case (ok s1)
  obtain data shared s2 where r: "read_json cd p s1 = ((data, shared), s2)"
    by (metis prod.collapse)
  have d: "data = fst (fst (read_json cd p s))"
    using read_json_cong[OF ok(2,3,5), of cd p] r by (metis fst_conv)
  have fr: "files s2 = files s" "locks s2 = locks s1"
    using read_json_frame[of cd p s1] r ok by simp_all
  have f: "f data = (d', Inl e)"
    using assms(2) d by simp
  show ?thesis
    using ok(1,6) r f fr by (simp add: update_atomic_def release_lock_def)
qed

subsection \<open>Merge-upsert of a thesis\<close>

lemma py_eq_JStr [simp]: "py_eq x (JStr c) \<longleftrightarrow> x = JStr c"
  by (cases x) (auto simp: py_eq_def)







subsection \<open>Archive of defended theses\<close>










subsection \<open>Registration of a student\<close>

lemma any_code_True:
  "\<forall>x\<in>set xs. \<exists>e. x = JDict e \<Longrightarrow> \<exists>x\<in>set xs. student_code_of x = JStr c \<Longrightarrow>
   any_code c xs = Inr True"
proof (induction xs)
  case Nil
  then show ?case by simp
next
  case (Cons x xs)
  from Cons.prems(1) obtain e where e: "x = JDict e" by auto
  show ?case
  proof (cases "py_get e ''student_code'' = JStr c")
    case True
    with e show ?thesis by simp
  next
    case False
    with e Cons.prems(2) have "\<exists>x\<in>set xs. student_code_of x = JStr c"
      by (auto simp: student_code_of_def)
    with Cons.IH Cons.prems(1) e False show ?thesis by simp
  qed
qed

lemma any_code_False:
  "\<forall>x\<in>set xs. \<exists>e. x = JDict e \<Longrightarrow> \<forall>x\<in>set xs. student_code_of x \<noteq> JStr c \<Longrightarrow>
   any_code c xs = Inr False"
  by (induction xs) (auto simp: student_code_of_def)

lemma validate_student_rec:
  "validate_student (student_rec a) =
     (if email_ok a then (True, ''OK'') else (False, ''Invalid student email''))"
  by (auto simp: validate_student_def student_rec_def py_get_or_def email_ok_def
           split: option.splits)

lemma student_code_of_rec: "student_code_of (JDict (student_rec a)) = JStr (r_student_code a)"
  by (simp add: student_code_of_def student_rec_def py_get_def py_get_or_def)

lemma register_student_files:
  "files (snd (register_student cd a s)) =
     files (snd (update_atomic cd ''students'' (Some (register_fn a)) s))"
proof (cases "update_atomic cd ''students'' (Some (register_fn a)) s")
  case (Pair r s')
  show ?thesis
  proof (cases r)
    case (Inl e)
    with Pair show ?thesis by (simp add: register_student_def)
  next
    case (Inr v)
    let ?s = "s'\<lparr>audit := audit s' @ [(''REGISTER_STUDENT'', ''students'')]\<rparr>"
    have "files (snd (read_json cd ''students'' ?s)) = files s'"
      using read_json_frame[of cd "''students''" ?s] by simp
    with Pair Inr show ?thesis
      by (cases "read_json cd ''students'' ?s") (auto simp: register_student_def)
  qed
qed

lemma register_student_error:
  "fst (update_atomic cd ''students'' (Some (register_fn a)) s) = Inl e \<Longrightarrow>
   fst (register_student cd a s) = Inl e"
  by (cases "update_atomic cd ''students'' (Some (register_fn a)) s")
     (simp add: register_student_def)

text \<open>
  C9, as the code has it. Let the lock be obtained and let the students read under it be
  a list \<open>xs\<close> of records. When a record of \<open>xs\<close> has the student code, the call raises
  \<open>ValueError\<close> and no file changes. When none has it and the e-mail is absent, empty or
  well-formed, the file afterwards holds \<open>xs\<close> followed by one new record with that code,
  and if the codes of \<open>xs\<close> were pairwise different, so are the codes of the new list. When
  none has it and the e-mail is ill-formed, the call raises \<open>ValueError\<close> and no file changes.
\<close>

theorem register_student_unique:
  assumes "fst (acquire_lock ''students'' LOCK_TIMEOUT_SEC s) \<noteq> Inl TimeoutError"
      and "fst (fst (read_json cd ''students'' s)) = JList xs"
      and "\<forall>x\<in>set xs. \<exists>e. x = JDict e"
  shows
    "((\<exists>x\<in>set xs. student_code_of x = JStr (r_student_code a)) \<longrightarrow>
        fst (register_student cd a s) = Inl (ValueError ''student_code already exists'') \<and>
        files (snd (register_student cd a s)) = files s) \<and>
     ((\<forall>x\<in>set xs. student_code_of x \<noteq> JStr (r_student_code a)) \<and> email_ok a \<longrightarrow>
        files (snd (register_student cd a s)) ''students'' =
          Some (dumps cd (JList (xs @ [JDict (student_rec a)]))) \<and>
        student_code_of (JDict (student_rec a)) = JStr (r_student_code a) \<and>
        (distinct (map student_code_of xs) \<longrightarrow>
           distinct (map student_code_of (xs @ [JDict (student_rec a)])))) \<and>
     ((\<forall>x\<in>set xs. student_code_of x \<noteq> JStr (r_student_code a)) \<and> \<not> email_ok a \<longrightarrow>
        fst (register_student cd a s) =
          Inl (ValueError ''Invalid student record: Invalid student email'') \<and>
        files (snd (register_student cd a s)) = files s)"
proof -
  let ?c = "r_student_code a"
  have a: "fst (register_student cd a s) = Inl (ValueError ''student_code already exists'') \<and>
           files (snd (register_student cd a s)) = files s"
    if "\<exists>x\<in>set xs. student_code_of x = JStr ?c"
  proof -
    have "register_fn a (JList xs) = (JList xs, Inl (ValueError ''student_code already exists''))"
      using any_code_True[OF assms(3) that] by (simp add: register_fn_def)
    from update_atomic_raise[of "''students''" s "register_fn a" cd "JList xs"
           "ValueError ''student_code already exists''"] this assms(1,2)
    show ?thesis
      by (simp add: register_student_files register_student_error)
  qed
  have b: "files (snd (register_student cd a s)) ''students'' =
             Some (dumps cd (JList (xs @ [JDict (student_rec a)]))) \<and>
           student_code_of (JDict (student_rec a)) = JStr ?c \<and>
           (distinct (map student_code_of xs) \<longrightarrow>
              distinct (map student_code_of (xs @ [JDict (student_rec a)])))"
    if "\<forall>x\<in>set xs. student_code_of x \<noteq> JStr ?c" "email_ok a"
  proof -
    have "register_fn a (JList xs) = (JList (xs @ [JDict (student_rec a)]), Inr RetSame)"
      using any_code_False[OF assms(3) that(1)] that(2)
      by (simp add: register_fn_def validate_student_rec)
    from update_atomic_ok[of "''students''" s "register_fn a" cd
           "JList (xs @ [JDict (student_rec a)])" RetSame] this assms(1,2)
    have "files (snd (register_student cd a s)) ''students'' =
            Some (dumps cd (JList (xs @ [JDict (student_rec a)])))"
      by (simp add: register_student_files)
    moreover have "distinct (map student_code_of (xs @ [JDict (student_rec a)]))"
      if "distinct (map student_code_of xs)"
      using that \<open>\<forall>x\<in>set xs. student_code_of x \<noteq> JStr ?c\<close>
      by (auto simp: student_code_of_rec)
    ultimately show ?thesis
      by (simp add: student_code_of_rec)
  qed
  have c: "fst (register_student cd a s) =
             Inl (ValueError ''Invalid student record: Invalid student email'') \<and>
           files (snd (register_student cd a s)) = files s"
    if "\<forall>x\<in>set xs. student_code_of x \<noteq> JStr ?c" "\<not> email_ok a"
  proof -
    have "register_fn a (JList xs) =
            (JList xs, Inl (ValueError ''Invalid student record: Invalid student email''))"
      using any_code_False[OF assms(3) that(1)] that(2)
      by (simp add: register_fn_def validate_student_rec)
    from update_atomic_raise[of "''students''" s "register_fn a" cd "JList xs"
           "ValueError ''Invalid student record: Invalid student email''"] this assms(1,2)
    show ?thesis
      by (simp add: register_student_files register_student_error)
  qed
  show ?thesis
    using a b c by blast
qed

theorem register_student_unique_witness:
  "files (snd (register_student demo_codec demo_registration
                 (demo_world\<lparr>files := [''students'' \<mapsto> Some (JList [])]\<rparr>))) ''students'' =
     Some (Some (JList [JDict (student_rec demo_registration)])) \<and>
   student_code_of (JDict (student_rec demo_registration)) = JStr ''s1''"
proof -
  let ?w = "demo_world\<lparr>files := [''students'' \<mapsto> Some (JList [])]\<rparr>"
  have h1: "fst (acquire_lock ''students'' LOCK_TIMEOUT_SEC ?w) \<noteq> Inl TimeoutError"
    by (simp add: acquire_lock_free demo_world_def)
  have h2: "fst (fst (read_json demo_codec ''students'' ?w)) = JList []"
    by (simp add: read_json_def demo_codec_def demo_world_def)
  have h3: "\<forall>x\<in>set ([] :: json list). \<exists>e. x = JDict e"
    by simp
  have ok: "email_ok demo_registration"
    by (simp add: email_ok_def demo_registration_def is_email_def)
  from register_student_unique[OF h1 h2 h3, of demo_registration, THEN conjunct2, THEN conjunct1] ok
  show ?thesis
    by (simp add: demo_codec_def demo_registration_def)
qed

text \<open>
  Two runs against C9 as it is worded. With no student on file, a registration with an
  ill-formed e-mail raises and appends nothing. With two records of code \<open>s0\<close> on file, a
  registration of \<open>s1\<close> leaves both in place.
\<close>

theorem register_student_counterexample:
  "fst (register_student demo_codec (demo_registration\<lparr>r_email := Some ''sara at uni''\<rparr>)
          (demo_world\<lparr>files := [''students'' \<mapsto> Some (JList [])]\<rparr>)) =
     Inl (ValueError ''Invalid student record: Invalid student email'') \<and>
   files (snd (register_student demo_codec (demo_registration\<lparr>r_email := Some ''sara at uni''\<rparr>)
          (demo_world\<lparr>files := [''students'' \<mapsto> Some (JList [])]\<rparr>))) ''students'' =
     Some (Some (JList [])) \<and>
   files (snd (register_student demo_codec demo_registration
          (demo_world\<lparr>files := [''students'' \<mapsto> Some (JList
             [JDict [(''student_code'', JStr ''s0'')],
              JDict [(''student_code'', JStr ''s0'')]])]\<rparr>))) ''students'' =
     Some (Some (JList [JDict [(''student_code'', JStr ''s0'')],
                        JDict [(''student_code'', JStr ''s0'')],
                        JDict (student_rec demo_registration)]))"
proof -
  let ?a = "demo_registration\<lparr>r_email := Some ''sara at uni''\<rparr>"
  let ?w = "demo_world\<lparr>files := [''students'' \<mapsto> Some (JList [])]\<rparr>"
  let ?dup = "[JDict [(''student_code'', JStr ''s0'')], JDict [(''student_code'', JStr ''s0'')]]"
  let ?w' = "demo_world\<lparr>files := [''students'' \<mapsto> Some (JList ?dup)]\<rparr>"
  have l: "fst (acquire_lock ''students'' LOCK_TIMEOUT_SEC ?w) \<noteq> Inl TimeoutError"
    and l': "fst (acquire_lock ''students'' LOCK_TIMEOUT_SEC ?w') \<noteq> Inl TimeoutError"
    by (simp_all add: acquire_lock_free demo_world_def)
  have r: "fst (fst (read_json demo_codec ''students'' ?w)) = JList []"
    and r': "fst (fst (read_json demo_codec ''students'' ?w')) = JList ?dup"
    by (simp_all add: read_json_def demo_codec_def demo_world_def)
  have "\<not> email_ok ?a"
    by (simp add: email_ok_def is_email_def)
  then have f: "register_fn ?a (JList []) =
                  (JList [], Inl (ValueError ''Invalid student record: Invalid student email''))"
    by (simp add: register_fn_def validate_student_rec)
  have "email_ok demo_registration"
    by (simp add: email_ok_def demo_registration_def is_email_def)
  then have f': "register_fn demo_registration (JList ?dup) =
                   (JList (?dup @ [JDict (student_rec demo_registration)]), Inr RetSame)"
    by (simp add: register_fn_def validate_student_rec py_get_def py_get_or_def
          demo_registration_def)
  from update_atomic_raise[of "''students''" ?w "register_fn ?a" demo_codec "JList []"
         "ValueError ''Invalid student record: Invalid student email''"] l r f
  have 1: "fst (register_student demo_codec ?a ?w) =
             Inl (ValueError ''Invalid student record: Invalid student email'')"
    and 2: "files (snd (register_student demo_codec ?a ?w)) = files ?w"
    by (simp_all add: register_student_files register_student_error)
  from update_atomic_ok[of "''students''" ?w' "register_fn demo_registration" demo_codec
         "JList (?dup @ [JDict (student_rec demo_registration)])" RetSame] l' r' f'
  have 3: "files (snd (register_student demo_codec demo_registration ?w')) ''students'' =
             Some (dumps demo_codec (JList (?dup @ [JDict (student_rec demo_registration)])))"
    by (simp add: register_student_files)
  show ?thesis
    using 1 2 3 by (simp add: demo_codec_def)
qed

subsection \<open>Backup rotation\<close>


lemma update_fresh: "k \<notin> fst ` set b \<Longrightarrow> AList.update k v b = b @ [(k, v)]"
  by (induction b) auto

lemma fold_delete: "fold (\<lambda>old b. AList.delete old b) ks b = filter (\<lambda>e. fst e \<notin> set ks) b"
proof (induction ks arbitrary: b)
  case Nil
  then show ?case by simp
next
  case (Cons k ks)
  have "AList.delete k b = filter (\<lambda>e. fst e \<noteq> k) b"
    by (induction b) auto
  with Cons show ?case by (auto intro: filter_cong)
qed

lemma insort_key_last:
  "\<forall>x\<in>set zs. f x < f y \<Longrightarrow> f x < f y \<Longrightarrow> insort_key f x (zs @ [y]) = insort_key f x zs @ [y]"
  for f :: "'a \<Rightarrow> int"
  by (induction zs) auto

lemma sort_key_snoc:
  "\<forall>x\<in>set xs. f x < f y \<Longrightarrow> sort_key f (xs @ [y]) = sort_key f xs @ [y]"
  for f :: "'a \<Rightarrow> int"
proof (induction xs)
  case Nil
  then show ?case by simp
next
  case (Cons x xs)
  then have "sort_key f (xs @ [y]) = sort_key f xs @ [y]" by simp
  moreover have "\<forall>z\<in>set (sort_key f xs). f z < f y" using Cons.prems by simp
  ultimately show ?case
    using Cons.prems by (simp add: insort_key_last)
qed

lemma filter_drop_names:
  "distinct (map f xs) \<Longrightarrow> filter (\<lambda>e. f e \<notin> set (map f (drop n xs))) xs = take n xs"
proof (induction xs arbitrary: n)
  case Nil
  then show ?case by simp
next
  case (Cons x xs)
  show ?case
  proof (cases n)
    case 0
    then show ?thesis by (auto simp: filter_empty_conv)
  next
    case (Suc m)
    have "f x \<notin> set (map f (drop m xs))"
      using Cons.prems by (auto dest: in_set_dropD)
    with Cons Suc show ?thesis by simp
  qed
qed

lemma take_append_take: "take n (xs @ take n ys) = take n (xs @ ys)"
  by (induction xs arbitrary: n) (auto simp: take_Cons split: nat.splits)


lemma snaps_baks_cong: "baks s1 = baks s \<Longrightarrow> snaps p s1 = snaps p s"
  by (simp add: snaps_def)

lemma distinct_names_snaps: "distinct (map fst (baks s)) \<Longrightarrow> distinct (map fst (snaps p s))"
  by (auto simp: snaps_def distinct_map inj_on_def)

lemma snaps_filter: "snaps p (s\<lparr>baks := filter P (baks s)\<rparr>) = filter P (snaps p s)"
proof -
  have "filter (\<lambda>e. fst (fst e) = p) (filter P (baks s)) = filter P (filter (\<lambda>e. fst (fst e) = p) (baks s))"
    by (simp add: conj_commute)
  moreover have "baks (s\<lparr>baks := filter P (baks s)\<rparr>) = filter P (baks s)"
    by simp
  ultimately have "snaps p (s\<lparr>baks := filter P (baks s)\<rparr>) =
      rev (sort_key (\<lambda>e. snd (fst e)) (filter P (filter (\<lambda>e. fst (fst e) = p) (baks s))))"
    by (simp only: snaps_def)
  also have "\<dots> = rev (filter P (sort_key (\<lambda>e. snd (fst e)) (filter (\<lambda>e. fst (fst e) = p) (baks s))))"
    by (simp only: filter_sort)
  also have "\<dots> = filter P (snaps p s)"
    by (simp only: rev_filter snaps_def)
  finally show ?thesis .
qed

lemma rotate_backup_step:
  assumes f: "files s p = Some t"
      and d: "distinct (map fst (baks s))"
      and old: "\<forall>e\<in>set (baks s). fst (fst e) = p \<longrightarrow> snd (fst e) < now s div 1000"
  shows "snaps p (rotate_backup p s) =
           take BACKUP_RETAIN_PER_FILE (((p, now s div 1000), t) # snaps p s) \<and>
         distinct (map fst (baks (rotate_backup p s))) \<and>
         (\<forall>e\<in>set (baks (rotate_backup p s)). fst (fst e) = p \<longrightarrow> snd (fst e) \<le> now s div 1000)"
proof -
  let ?k = "(p, now s div 1000)"
  let ?b1 = "baks s @ [(?k, t)]"
  let ?s1 = "s\<lparr>baks := ?b1\<rparr>"
  have fresh: "?k \<notin> fst ` set (baks s)"
    using old by force
  have b1: "AList.update ?k t (baks s) = ?b1"
    using update_fresh[OF fresh] .
  have L1: "snaps p ?s1 = (?k, t) # snaps p s"
    using old by (simp add: snaps_def sort_key_snoc)
  have d1: "distinct (map fst ?b1)"
    using d fresh by simp
  let ?del = "map fst (drop BACKUP_RETAIN_PER_FILE (snaps p ?s1))"
  have rb: "baks (rotate_backup p s) = filter (\<lambda>e. fst e \<notin> set ?del) ?b1"
    using f b1 by (simp add: rotate_backup_def Let_def fold_delete BACKUP_RETAIN_PER_FILE_def)
  have dL: "distinct (map fst (snaps p ?s1))"
    using distinct_names_snaps[of ?s1 p] d1 by simp
  have "snaps p (rotate_backup p s) = filter (\<lambda>e. fst e \<notin> set ?del) (snaps p ?s1)"
    using snaps_filter[where p = p and s = ?s1 and P = "\<lambda>e. fst e \<notin> set ?del"]
      snaps_baks_cong[of "rotate_backup p s" "?s1\<lparr>baks := filter (\<lambda>e. fst e \<notin> set ?del) (baks ?s1)\<rparr>" p] rb
    by simp
  also have "\<dots> = take BACKUP_RETAIN_PER_FILE (snaps p ?s1)"
    using filter_drop_names[OF dL, of BACKUP_RETAIN_PER_FILE] by simp
  finally have 1: "snaps p (rotate_backup p s) =
      take BACKUP_RETAIN_PER_FILE (((p, now s div 1000), t) # snaps p s)"
    using L1 by simp
  have 2: "distinct (map fst (baks (rotate_backup p s)))"
    unfolding rb using d1 by (rule distinct_map_filter)
  have 3: "\<forall>e\<in>set (baks (rotate_backup p s)). fst (fst e) = p \<longrightarrow> snd (fst e) \<le> now s div 1000"
    unfolding rb using old by auto
  show ?thesis using 1 2 3 by blast
qed

lemma rotate_backup_locks:
  "baks (rotate_backup p (s\<lparr>locks := l\<rparr>)) = baks (rotate_backup p s)"
  by (simp add: rotate_backup_def Let_def snaps_def split: option.splits)

lemma write_json_free:
  assumes "locks s p = None"
  shows "baks (snd (write_json cd p d s)) = baks (rotate_backup p s) \<and>
         files (snd (write_json cd p d s)) p = Some (dumps cd d) \<and>
         locks (snd (write_json cd p d s)) p = None"
  using assms
  by (simp add: write_json_def acquire_lock_free release_lock_def atomic_write_text_def
        rotate_backup_frame rotate_backup_locks)


lemma write_json_step:
  assumes "locks s p = None" and "files s p = Some t0" and "distinct (map fst (baks s))"
      and "\<forall>e\<in>set (baks s). fst (fst e) = p \<longrightarrow> snd (fst e) < t div 1000"
  shows "snaps p (snd (write_json cd p d (s\<lparr>now := t\<rparr>))) =
           take BACKUP_RETAIN_PER_FILE (((p, t div 1000), t0) # snaps p s) \<and>
         distinct (map fst (baks (snd (write_json cd p d (s\<lparr>now := t\<rparr>))))) \<and>
         (\<forall>e\<in>set (baks (snd (write_json cd p d (s\<lparr>now := t\<rparr>)))).
             fst (fst e) = p \<longrightarrow> snd (fst e) \<le> t div 1000) \<and>
         files (snd (write_json cd p d (s\<lparr>now := t\<rparr>))) p = Some (dumps cd d) \<and>
         locks (snd (write_json cd p d (s\<lparr>now := t\<rparr>))) p = None"
proof -
  let ?s = "s\<lparr>now := t\<rparr>"
  have w: "baks (snd (write_json cd p d ?s)) = baks (rotate_backup p ?s)"
    "files (snd (write_json cd p d ?s)) p = Some (dumps cd d)"
    "locks (snd (write_json cd p d ?s)) p = None"
    using write_json_free[of ?s p cd d] assms(1) by simp_all
  have r: "snaps p (rotate_backup p ?s) =
             take BACKUP_RETAIN_PER_FILE (((p, now ?s div 1000), t0) # snaps p ?s)"
    "distinct (map fst (baks (rotate_backup p ?s)))"
    "\<forall>e\<in>set (baks (rotate_backup p ?s)). fst (fst e) = p \<longrightarrow> snd (fst e) \<le> now ?s div 1000"
    using rotate_backup_step[of ?s p t0] assms(2,3,4) by simp_all
  have "snaps p (snd (write_json cd p d ?s)) = snaps p (rotate_backup p ?s)"
    using w(1) by (rule snaps_baks_cong)
  moreover have "snaps p ?s = snaps p s"
    by (simp add: snaps_def)
  ultimately show ?thesis
    using w r by simp
qed

lemma write_seq_snaps:
  assumes "locks s p = None" and "files s p = Some t0" and "distinct (map fst (baks s))"
      and "sorted_wrt (<) (map (\<lambda>w. fst w div 1000) (w # ws))"
      and "\<forall>e\<in>set (baks s). fst (fst e) = p \<longrightarrow> (\<forall>v\<in>set (w # ws). snd (fst e) < fst v div 1000)"
  shows "snaps p (write_seq cd p (w # ws) s) =
           take BACKUP_RETAIN_PER_FILE
             (rev (zip (map (\<lambda>v. (p, fst v div 1000)) (w # ws))
                       (t0 # map (\<lambda>v. dumps cd (snd v)) (w # ws))) @ snaps p s)"
  using assms
proof (induction ws arbitrary: w s t0)
  case Nil
  obtain t d where w: "w = (t, d)" by (cases w)
  show ?case
    using write_json_step[of s p t0 t cd d] Nil.prems w by simp
next
  case (Cons w' ws)
  obtain t d where w: "w = (t, d)" by (cases w)
  let ?s' = "snd (write_json cd p d (s\<lparr>now := t\<rparr>))"
  have old: "\<forall>e\<in>set (baks s). fst (fst e) = p \<longrightarrow> snd (fst e) < t div 1000"
    using Cons.prems(5) w by simp
  note st = write_json_step[OF Cons.prems(1,2,3) old, of cd d]
  have srt: "sorted_wrt (<) (map (\<lambda>w. fst w div 1000) (w' # ws))"
    using Cons.prems(4) by simp
  have later: "\<forall>v\<in>set (w' # ws). t div 1000 < fst v div 1000"
    using Cons.prems(4) w by simp
  have old': "\<forall>e\<in>set (baks ?s'). fst (fst e) = p \<longrightarrow>
                (\<forall>v\<in>set (w' # ws). snd (fst e) < fst v div 1000)"
    using st later by fastforce
  have "snaps p (write_seq cd p (w # w' # ws) s) = snaps p (write_seq cd p (w' # ws) ?s')"
    by (simp add: w)
  also have "\<dots> = take BACKUP_RETAIN_PER_FILE
      (rev (zip (map (\<lambda>v. (p, fst v div 1000)) (w' # ws))
                (dumps cd d # map (\<lambda>v. dumps cd (snd v)) (w' # ws))) @ snaps p ?s')"
  proof -
    have a: "locks ?s' p = None" and b: "files ?s' p = Some (dumps cd d)"
      and c: "distinct (map fst (baks ?s'))"
      using st by simp_all
    show ?thesis
      by (rule Cons.IH[OF a b c srt old'])
  qed
  also have "\<dots> = take BACKUP_RETAIN_PER_FILE
      (rev (zip (map (\<lambda>v. (p, fst v div 1000)) (w' # ws))
                (dumps cd d # map (\<lambda>v. dumps cd (snd v)) (w' # ws))) @
       ((p, t div 1000), t0) # snaps p s)"
    using st by (simp only: take_append_take)
  finally show ?case
    by (simp add: w)
qed

text \<open>
  C6, as the code has it. Let the resource exist, let nobody hold its lock, and let more
  than \<open>BACKUP_RETAIN_PER_FILE\<close> writes follow each other, each in a later clock second
  than the one before and than every slot the resource already has. Then exactly
  \<open>BACKUP_RETAIN_PER_FILE\<close> slots of the resource remain: newest first, they are the
  texts the file held just before each of the last \<open>BACKUP_RETAIN_PER_FILE\<close> writes,
  under the seconds of these writes.
\<close>

theorem write_seq_retention:
  assumes "locks s p = None" and "files s p = Some t0" and "distinct (map fst (baks s))"
      and "sorted_wrt (<) (map (\<lambda>w. fst w div 1000) ws)"
      and "\<forall>e\<in>set (baks s). fst (fst e) = p \<longrightarrow> (\<forall>v\<in>set ws. snd (fst e) < fst v div 1000)"
      and "length ws > BACKUP_RETAIN_PER_FILE"
  shows "snaps p (write_seq cd p ws s) =
           take BACKUP_RETAIN_PER_FILE
             (rev (zip (map (\<lambda>v. (p, fst v div 1000)) ws) (t0 # map (\<lambda>v. dumps cd (snd v)) ws))) \<and>
         length (snaps p (write_seq cd p ws s)) = BACKUP_RETAIN_PER_FILE"
proof -
  from assms(6) obtain w ws' where ws: "ws = w # ws'"
    by (cases ws) auto
  let ?new = "rev (zip (map (\<lambda>v. (p, fst v div 1000)) ws) (t0 # map (\<lambda>v. dumps cd (snd v)) ws))"
  have len: "length ?new = length ws"
    by simp
  have "snaps p (write_seq cd p ws s) = take BACKUP_RETAIN_PER_FILE (?new @ snaps p s)"
    using write_seq_snaps[of s p t0 w ws' cd] assms(1-5) unfolding ws by blast
  also have "\<dots> = take BACKUP_RETAIN_PER_FILE ?new"
    using len assms(6) by simp
  finally show ?thesis
    using len assms(6) by simp
qed


theorem write_seq_retention_witness:
  "snaps ''thesis'' (write_seq demo_codec ''thesis'' demo_writes demo_world) =
     [((''thesis'', 11), Some (JInt 10)), ((''thesis'', 10), Some (JInt 9)),
      ((''thesis'', 9), Some (JInt 8)), ((''thesis'', 8), Some (JInt 7)),
      ((''thesis'', 7), Some (JInt 6)), ((''thesis'', 6), Some (JInt 5)),
      ((''thesis'', 5), Some (JInt 4)), ((''thesis'', 4), Some (JInt 3)),
      ((''thesis'', 3), Some (JInt 2)), ((''thesis'', 2), Some (JInt 1))]"
proof -
  have h1: "locks demo_world ''thesis'' = None"
    and h2: "files demo_world ''thesis'' = Some (Some (JList []))"
    and h3: "distinct (map fst (baks demo_world))"
    and h5: "\<forall>e\<in>set (baks demo_world). fst (fst e) = ''thesis'' \<longrightarrow>
               (\<forall>v\<in>set demo_writes. snd (fst e) < fst v div 1000)"
    by (simp_all add: demo_world_def)
  have h4: "sorted_wrt (<) (map (\<lambda>w. fst w div 1000) demo_writes)"
    by (simp add: demo_writes_def)
  have h6: "length demo_writes > BACKUP_RETAIN_PER_FILE"
    by (simp add: demo_writes_def BACKUP_RETAIN_PER_FILE_def)
  from write_seq_retention[OF h1 h2 h3 h4 h5 h6, of demo_codec, THEN conjunct1]
  show ?thesis
    by (simp add: demo_writes_def demo_codec_def BACKUP_RETAIN_PER_FILE_def)
qed

lemma write_json_free_eq:
  "locks s p = None \<Longrightarrow>
   snd (write_json cd p d s) =
     (rotate_backup p s)\<lparr>files := (files s)(p \<mapsto> dumps cd d)\<rparr>"
  by (simp add: write_json_def acquire_lock_free release_lock_def atomic_write_text_def
        rotate_backup_def Let_def snaps_def fun_upd_idem split: option.splits)

text \<open>
  A run against C6 as it is worded: eleven writes within one clock second all copy to the
  slot of that second, so a single slot remains; it holds the state before the last write.
\<close>

theorem write_seq_burst_counterexample:
  "snaps ''thesis'' (write_seq demo_codec ''thesis'' demo_burst demo_world) =
     [((''thesis'', 0), Some (JInt 10))]"
  by (simp add: demo_burst_def demo_world_def demo_codec_def write_json_free_eq
        rotate_backup_def Let_def snaps_def BACKUP_RETAIN_PER_FILE_def)

subsection \<open>Reading with fallback\<close>


lemma first_parsable_None: "first_parsable cd ts = None \<longleftrightarrow> (\<forall>t\<in>set ts. loads cd t = None)"
  by (induction ts) (auto split: option.splits)

lemma first_parsable_pairs:
  "first_parsable cd (map snd L) = Some v \<Longrightarrow>
   \<exists>L1 n t L2. L = L1 @ (n, t) # L2 \<and> loads cd t = Some v \<and> (\<forall>e\<in>set L1. loads cd (snd e) = None)"
proof (induction L)
  case Nil
  then show ?case by simp
next
  case (Cons e L)
  show ?case
  proof (cases "loads cd (snd e)")
    case None
    with Cons.prems have "first_parsable cd (map snd L) = Some v" by simp
    from Cons.IH[OF this] obtain L1 n t L2 where
      "L = L1 @ (n, t) # L2" "loads cd t = Some v" "\<forall>e\<in>set L1. loads cd (snd e) = None"
      by blast
    with None show ?thesis
      by (intro exI[of _ "e # L1"] exI[of _ n] exI[of _ t] exI[of _ L2]) simp
  next
    case (Some u)
    with Cons.prems have "u = v" by simp
    with Some show ?thesis
      by (intro exI[of _ "[]"] exI[of _ "fst e"] exI[of _ "snd e"] exI[of _ L]) simp
  qed
qed

lemma snaps_sorted: "sorted (rev (map (\<lambda>e. snd (fst e)) (snaps p s)))"
  by (simp add: snaps_def rev_map)

lemma snaps_set: "set (snaps p s) = {e \<in> set (baks s). fst (fst e) = p}"
  by (auto simp: snaps_def)

lemma read_json_fallback:
  assumes "Option.bind (files s p) (loads cd) = None"
  shows "(\<exists>n t v. (n, t) \<in> set (baks s) \<and> fst n = p \<and> loads cd t = Some v \<and>
            fst (read_json cd p s) = (v, False) \<and>
            (\<forall>e\<in>set (baks s). fst (fst e) = p \<and> snd n < snd (fst e) \<longrightarrow> loads cd (snd e) = None)) \<or>
         ((\<forall>e\<in>set (baks s). fst (fst e) = p \<longrightarrow> loads cd (snd e) = None) \<and>
          fst (read_json cd p s) =
            (case defaults s p of
               Some d \<Rightarrow> if is_container d then (d, True) else (JList [], False)
             | None \<Rightarrow> (JList [], False)))"
proof (cases "first_parsable cd (map snd (snaps p s))")
  case None
  then have "\<forall>e\<in>set (baks s). fst (fst e) = p \<longrightarrow> loads cd (snd e) = None"
    by (auto simp: first_parsable_None snaps_set)
  moreover have "fst (read_json cd p s) =
            (case defaults s p of
               Some d \<Rightarrow> if is_container d then (d, True) else (JList [], False)
             | None \<Rightarrow> (JList [], False))"
    using assms None by (simp add: read_json_def Let_def snaps_def split: option.splits)
  ultimately show ?thesis by blast
next
  case (Some v)
  from first_parsable_pairs[OF Some] obtain L1 n t L2 where
    L: "snaps p s = L1 @ (n, t) # L2" and t: "loads cd t = Some v"
    and L1: "\<forall>e\<in>set L1. loads cd (snd e) = None"
    by blast
  have "(n, t) \<in> set (snaps p s)"
    unfolding L by simp
  then have mem: "(n, t) \<in> set (baks s)" "fst n = p"
    unfolding snaps_set by simp_all
  have le: "\<forall>e\<in>set L2. snd (fst e) \<le> snd n"
    using snaps_sorted[of p s] unfolding L by (auto simp: sorted_append)
  have newer: "loads cd (snd e) = None"
    if "e \<in> set (baks s)" "fst (fst e) = p" "snd n < snd (fst e)" for e
  proof -
    have "e \<in> set (snaps p s)" using that snaps_set[of p s] by simp
    then have "e \<in> set L1" using L le that(3) by auto
    with L1 show ?thesis by simp
  qed
  have "fst (read_json cd p s) = (v, False)"
    using assms Some by (simp add: read_json_def Let_def snaps_def)
  with mem t newer show ?thesis by blast
qed

lemma DEFAULTS_thesis: "DEFAULTS ''thesis'' = Some (JList [])"
  by (simp add: DEFAULTS_def)

lemma upsert_lost:
  "snd (upsert_thesis demo_codec demo_thesis demo_lost) =
     demo_lost\<lparr>files := [''thesis'' \<mapsto> Some (JList [JDict demo_thesis])],
                baks := [((''thesis'', 0), None)],
                audit := [(''JSON_READ_FAILED'', ''thesis''), (''UPSERT_THESIS'', ''thesis'')],
                defaults := DEFAULTS(''thesis'' \<mapsto> JList [JDict demo_thesis])\<rparr>"
proof -
  have f: "upsert_fn demo_thesis (JList []) = (JList [JDict demo_thesis], Inr RetSame)"
    by (simp add: upsert_fn_def)
  have k: "truthy (py_get demo_thesis ''student_code'')" "truthy (py_get demo_thesis ''course_id'')"
    by (simp_all add: demo_thesis_def py_get_def py_get_or_def)
  show ?thesis
    using k
    by (simp add: upsert_thesis_def update_atomic_def acquire_lock_free read_json_def f
          release_lock_def atomic_write_text_def rotate_backup_def snaps_def Let_def
          BACKUP_RETAIN_PER_FILE_def demo_lost_def demo_world_def demo_codec_def
          DEFAULTS_thesis fun_upd_idem)
qed

text \<open>
  C3. When the primary file does not parse, \<open>read_json\<close> returns the newest slot that
  parses (lemma \<open>read_json_fallback\<close>), and being a total function of the model it always
  returns a value. When no slot parses it returns the list object stored in \<open>_DEFAULTS\<close>
  itself, and that object is empty only as long as no caller has changed it in place. The
  run below: \<open>thesis.json\<close> holds garbage and there is no slot; \<open>upsert_thesis\<close> loads
  the list of \<open>_DEFAULTS\<close>, appends the request to it in place and writes the file (the
  rotation keeps the garbage as the only slot); the file is then lost again. No slot
  parses, the table was declared with an empty list, and \<open>read_json\<close> returns the list
  with the request in it.
\<close>

theorem read_json_shared_default:
  "Option.bind (files ((snd (upsert_thesis demo_codec demo_thesis demo_lost))\<lparr>files := Map.empty\<rparr>) ''thesis'')
     (loads demo_codec) = None \<and>
   first_parsable demo_codec
     (map snd (snaps ''thesis'' ((snd (upsert_thesis demo_codec demo_thesis demo_lost))\<lparr>files := Map.empty\<rparr>))) = None \<and>
   DEFAULTS ''thesis'' = Some (JList []) \<and>
   fst (read_json demo_codec ''thesis''
          ((snd (upsert_thesis demo_codec demo_thesis demo_lost))\<lparr>files := Map.empty\<rparr>)) =
     (JList [JDict demo_thesis], True)"
  unfolding upsert_lost
  by (simp add: DEFAULTS_thesis read_json_def snaps_def demo_codec_def demo_lost_def
        demo_world_def)

theorem read_json_shared_default_witness:
  "fst (fst (read_json demo_codec ''thesis''
               ((snd (upsert_thesis demo_codec demo_thesis demo_lost))\<lparr>files := Map.empty\<rparr>))) \<noteq>
     JList []"
  using read_json_shared_default by simp

subsection \<open>Rollback of a failed copy\<close>

lemma unlink_all_absent:
  "f q = None \<Longrightarrow> fold (\<lambda>p f. (f(p := None))(sidecar p := None)) ps f q = None"
  by (induction ps arbitrary: f) auto

lemma unlink_all_removed:
  "p \<in> set ps \<Longrightarrow>
   fold (\<lambda>p f. (f(p := None))(sidecar p := None)) ps f p = None \<and>
   fold (\<lambda>p f. (f(p := None))(sidecar p := None)) ps f (sidecar p) = None"
proof (induction ps arbitrary: f)
  case Nil
  then show ?case by simp
next
  case (Cons a ps)
  show ?case
  proof (cases "p = a")
    case True
    let ?g = "(f(a := None))(sidecar a := None)"
    have g1: "?g a = None" and g2: "?g (sidecar a) = None"
      by simp_all
    have "fold (\<lambda>p f. (f(p := None))(sidecar p := None)) ps ?g a = None"
      using g1 by (rule unlink_all_absent[where f = ?g and q = a])
    moreover have "fold (\<lambda>p f. (f(p := None))(sidecar p := None)) ps ?g (sidecar a) = None"
      using g2 by (rule unlink_all_absent[where f = ?g and q = "sidecar a"])
    ultimately show ?thesis
      using True by (simp only: fold_simps o_apply)
  next
    case False
    with Cons show ?thesis by simp
  qed
qed

lemma rollback_removed:
  "p \<in> set created \<Longrightarrow> rollback created fs p = None \<and> rollback created fs (sidecar p) = None"
  using unlink_all_removed[of p "rev created" fs] by (simp add: rollback_def)

lemma rollback_other:
  "q \<notin> set created \<Longrightarrow> q \<notin> sidecar ` set created \<Longrightarrow> rollback created fs q = fs q"
proof -
  have "q \<notin> set ps \<Longrightarrow> q \<notin> sidecar ` set ps \<Longrightarrow>
        fold (\<lambda>p f. (f(p := None))(sidecar p := None)) ps f q = f q" for ps f
    by (induction ps arbitrary: f) auto
  from this[of "rev created" fs] show "q \<notin> set created \<Longrightarrow> q \<notin> sidecar ` set created \<Longrightarrow> ?thesis"
    by (simp add: rollback_def)
qed

text \<open>
  C10. The rollback removes the destinations recorded in \<open>created\<close> and their sidecars
  (lemma \<open>rollback_removed\<close>) and touches nothing else (lemma \<open>rollback_other\<close>), so it
  does not remove the temporary file of the copy that failed. In the run below the PDF is
  copied, the copy of the cover fails with two bytes written: the call raises, the PDF and
  its sidecar are gone again, and the image directory, empty before the call, holds the
  temporary file.
\<close>

theorem copy_with_rollback_leaves_tmp:
  "copy_with_rollback demo_pdf demo_cover demo_last Map.empty =
     (Inl (OtherError ''OSError''),
      [(''files/images'', ''.s1_c1_cover.jpg.tmp.0003'') \<mapsto> ''JF''])"
  by (auto simp: copy_with_rollback_def copy_one_def atomic_copy_def write_sidecar_hash_def
        atomic_write_text_files_def rollback_def tmp_name_def sidecar_def
        demo_pdf_def demo_cover_def demo_last_def)

end
